theory Spec2Isabelle
  imports Complex_Main "HOL-Library.Word" "HOL-Library.Log_Nat"
begin

unbundle bit_operations_syntax

section \<open>winrandom.c: the Windows CryptGenRandom binding\<close>

text \<open>
  The module is Windows-only (it includes \<^verbatim>\<open>windows.h\<close> and \<^verbatim>\<open>wincrypt.h\<close>), so
  \<^verbatim>\<open>unsigned long\<close>, \<^verbatim>\<open>long\<close>, \<^verbatim>\<open>unsigned int\<close> and \<^verbatim>\<open>DWORD\<close> are all 32 bits
  wide and memory is little-endian. Python integers are unbounded and are modelled
  as \<open>int\<close>.
\<close>

type_synonym ulong = "32 word"
type_synonym uint32 = "32 word"
type_synonym byte = "8 word"

subsection \<open>Errors\<close>

text \<open>
  Every \<^verbatim>\<open>return NULL\<close> of the source with the exception it sets:
  \<^item> \<open>ParseError\<close>: \<^verbatim>\<open>ValueError("unable to parse arguments")\<close>;
  \<^item> \<open>InvalidRange\<close>: \<^verbatim>\<open>error_out(self, "rand_max needs to be >1 ...")\<close>;
  \<^item> \<open>SourceUnavailable\<close>: \<^verbatim>\<open>"Unable to acquire Windows random number generator"\<close>;
  \<^item> \<open>GenerationFailed\<close>: \<^verbatim>\<open>"Unable to fetch random data from Windows"\<close>;
  \<^item> \<open>EntropyTestFailed\<close>: \<^verbatim>\<open>"Continuous random number generator test failed"\<close>;
  \<^item> \<open>AllocationFailed\<close>: \<^verbatim>\<open>MemoryError("Memory issue")\<close>.

  Two more outcomes come from \<^verbatim>\<open>Py_BuildValue("y#", s, num_bytes)\<close> in
  \<^verbatim>\<open>winrandom_bytes\<close>, which the source calls without defining
  \<^verbatim>\<open>PY_SSIZE_T_CLEAN\<close>:
  \<^item> \<open>SystemError\<close>: the exception an interpreter raises that refuses \<^verbatim>\<open>#\<close> without
    that macro;
  \<^item> \<open>ReadPastBuffer\<close>: not an exception: \<^verbatim>\<open>strlen\<close> runs past the end of the
    buffer, and the program does not define what happens then.
\<close>

datatype error =
    ParseError
  | InvalidRange
  | SourceUnavailable
  | GenerationFailed
  | EntropyTestFailed
  | AllocationFailed
  | SystemError
  | ReadPastBuffer

subsection \<open>The operating system and the process state\<close>

text \<open>
  The operating system is a parameter of every operation: whether each of the two
  providers can be acquired, whether \<^verbatim>\<open>malloc\<close> of a size succeeds, and, for the
  \<open>k\<close>-th call of \<^verbatim>\<open>CryptGenRandom\<close> in the process, either failure (\<open>None\<close>) or
  the supply of random bytes the call writes from (\<open>Some f\<close>: byte \<open>i\<close> of the
  buffer receives \<open>f i\<close>). The interpreter is part of it too: \<open>hash_reads_int\<close> says
  whether the \<^verbatim>\<open>#\<close> of a \<^verbatim>\<open>Py_BuildValue\<close> format, in a module compiled without
  \<^verbatim>\<open>PY_SSIZE_T_CLEAN\<close>, reads its length argument as a C \<^verbatim>\<open>int\<close> (CPython up to
  3.9) or makes the call fail with \<^verbatim>\<open>SystemError\<close> (CPython 3.10 and later).
\<close>

record env =
  aes_ok :: bool
  full_ok :: bool
  malloc_ok :: "nat \<Rightarrow> bool"
  gen :: "nat \<Rightarrow> (nat \<Rightarrow> byte) option"
  hash_reads_int :: bool

text \<open>
  The process state: the function-static \<^verbatim>\<open>iContinousRndTest\<close> of
  \<^verbatim>\<open>winrandom_range\<close>, the number of provider handles acquired and released so
  far, and the \<^verbatim>\<open>dwLen\<close> of every \<^verbatim>\<open>CryptGenRandom\<close> call so far (oldest first).
\<close>

record proc =
  iContinousRndTest :: ulong
  acquired :: nat
  released :: nat
  fetched :: "nat list"

text \<open>\<^verbatim>\<open>static unsigned long iContinousRndTest = 0L;\<close> at process start.\<close>

definition proc_init :: proc where
  "proc_init = \<lparr>iContinousRndTest = 0, acquired = 0, released = 0, fetched = []\<rparr>"

datatype provider = PROV_RSA_AES | PROV_RSA_FULL

definition CryptAcquireContext :: "env \<Rightarrow> provider \<Rightarrow> proc \<Rightarrow> bool \<times> proc" where
  "CryptAcquireContext os p s =
     (if (case p of PROV_RSA_AES \<Rightarrow> aes_ok os | PROV_RSA_FULL \<Rightarrow> full_ok os)
      then (True, s\<lparr>acquired := acquired s + 1\<rparr>)
      else (False, s))"

definition CryptReleaseContext :: "proc \<Rightarrow> proc" where
  "CryptReleaseContext s = s\<lparr>released := released s + 1\<rparr>"

definition CryptGenRandom :: "env \<Rightarrow> nat \<Rightarrow> proc \<Rightarrow> byte list option \<times> proc" where
  "CryptGenRandom os dwLen s =
     (case gen os (length (fetched s)) of
        None \<Rightarrow> (None, s\<lparr>fetched := fetched s @ [dwLen]\<rparr>)
      | Some f \<Rightarrow> (Some (map f [0..<dwLen]), s\<lparr>fetched := fetched s @ [dwLen]\<rparr>))"

text \<open>
  The block all three entry points start their work with: the stronger provider
  first, then the general one.
\<close>

definition acquire :: "env \<Rightarrow> proc \<Rightarrow> bool \<times> proc" where
  "acquire os s =
     (case CryptAcquireContext os PROV_RSA_AES s of
        (True, s1) \<Rightarrow> (True, s1)
      | (False, s1) \<Rightarrow> CryptAcquireContext os PROV_RSA_FULL s1)"

subsection \<open>The Python C API calls\<close>

text \<open>
  \<^verbatim>\<open>PyArg_ParseTuple(args, "l", &r)\<close> converts a Python integer to a C \<^verbatim>\<open>long\<close>
  and fails when it does not fit; the source passes the address of the
  \<^verbatim>\<open>unsigned long r\<close>, so a negative argument is read back as its two's complement.
\<close>

definition PyArg_l :: "int \<Rightarrow> ulong option" where
  "PyArg_l x = (if - (2 ^ 31) \<le> x \<and> x < 2 ^ 31 then Some (word_of_int x) else None)"

text \<open>
  \<^verbatim>\<open>PyArg_ParseTuple(args, "I", &num_bytes)\<close> converts a Python integer to a C
  \<^verbatim>\<open>unsigned int\<close> without overflow checking: the value is reduced modulo \<open>2 ^ 32\<close>.
\<close>

definition PyArg_I :: "int \<Rightarrow> uint32 option" where
  "PyArg_I x = Some (word_of_int x)"

text \<open>\<^verbatim>\<open>Py_BuildValue("k", c)\<close>: the Python integer with the value of an \<^verbatim>\<open>unsigned long\<close>.\<close>

definition Py_BuildValue_k :: "ulong \<Rightarrow> int" where
  "Py_BuildValue_k c = uint c"

text \<open>
  \<^verbatim>\<open>Py_BuildValue("y#", s, num_bytes)\<close>. The source does not define
  \<^verbatim>\<open>PY_SSIZE_T_CLEAN\<close>, so an interpreter that accepts the call reads the length as
  a C \<^verbatim>\<open>int\<close>: the \<^verbatim>\<open>unsigned int num_bytes\<close> is read back as its two's complement.
  A non-negative length gives that many bytes of the buffer. A negative length makes
  the interpreter take \<^verbatim>\<open>strlen(s)\<close> instead: the bytes before the first zero byte,
  and a read past the buffer when it holds none.
\<close>

definition Py_BuildValue_y :: "env \<Rightarrow> byte list \<Rightarrow> uint32 \<Rightarrow> error + byte list" where
  "Py_BuildValue_y os s num_bytes =
     (if \<not> hash_reads_int os then Inl SystemError
      else let n = sint num_bytes in
        if 0 \<le> n then Inr (take (nat n) s)
        else if 0 \<in> set s then Inr (takeWhile (\<lambda>b. b \<noteq> 0) s)
        else Inl ReadPastBuffer)"

subsection \<open>winrandom_range\<close>

text \<open>
  \<^verbatim>\<open>upperLimitBits = ceil(log(r-1) / log(2))\<close> and \<^verbatim>\<open>t = (long) ceil(upperLimitBits/8)\<close>.
  The source computes both in \<^verbatim>\<open>double\<close>; the model computes them in the reals, so
  the rounding of the floating-point quotient is not part of it. With a \<^verbatim>\<open>log\<close>
  that is accurate to a few units in the last place, the two can differ only where
  the quotient is a whole number in the reals, that is where \<open>r - 1\<close> is a
  power of two: there the rounded quotient may lie just above the whole number, and the
  source then computes one bit more than the model. At \<open>r - 1 = 1\<close> and \<open>r - 1 = 2\<close>
  the two agree, since \<^verbatim>\<open>log(1)\<close> is exactly 0 and \<^verbatim>\<open>log(2) / log(2)\<close> exactly 1.
\<close>

definition upperLimitBits :: "ulong \<Rightarrow> real" where
  "upperLimitBits r = of_int \<lceil>ln (real (unat (r - 1))) / ln 2\<rceil>"

definition t_bytes :: "ulong \<Rightarrow> nat" where
  "t_bytes r = nat \<lceil>upperLimitBits r / 8\<rceil>"

text \<open>
  \<^verbatim>\<open>c = 0L; CryptGenRandom(hProv, t, (BYTE *) &c)\<close>: the bytes written go to the low
  addresses of \<open>c\<close>, which are its low-order bytes; the bytes not written stay zero.
\<close>

fun store_le :: "byte list \<Rightarrow> ulong" where
  "store_le [] = 0"
| "store_le (b # bs) = ucast b + push_bit 8 (store_le bs)"

text \<open>One pass through the body of \<^verbatim>\<open>while(1)\<close>.\<close>

datatype outcome = Fail error | Found ulong | Retry

definition range_body :: "env \<Rightarrow> ulong \<Rightarrow> real \<Rightarrow> nat \<Rightarrow> proc \<Rightarrow> outcome \<times> proc" where
  "range_body os r bits t s =
     (case CryptGenRandom os t s of
        (None, s1) \<Rightarrow> (Fail GenerationFailed, s1)
      | (Some bs, s1) \<Rightarrow>
          (let c = store_le bs in
           if bits > 15 \<and> c = iContinousRndTest s1 then (Fail EntropyTestFailed, s1)
           else let s2 = s1\<lparr>iContinousRndTest := c\<rparr> in
                if c < r then (Found c, s2) else (Retry, s2)))"

partial_function (option) range_loop ::
  "env \<Rightarrow> ulong \<Rightarrow> real \<Rightarrow> nat \<Rightarrow> proc \<Rightarrow> ((error + ulong) \<times> proc) option" where
  "range_loop os r bits t s =
     (case range_body os r bits t s of
        (Fail e, s1) \<Rightarrow> Some (Inl e, s1)
      | (Found c, s1) \<Rightarrow> Some (Inr c, s1)
      | (Retry, s1) \<Rightarrow> range_loop os r bits t s1)"

text \<open>
  The whole call. \<open>None\<close> is a call that never returns. The handle is released on
  the path that leaves the loop through \<^verbatim>\<open>break\<close> only.
\<close>

text \<open>
  The state in which pass \<open>k\<close> of the loop starts (the first pass is pass 0) when the
  loop is entered in state \<open>s\<close>; \<open>None\<close> when the loop has been left before that pass.
\<close>

fun pass_state :: "env \<Rightarrow> ulong \<Rightarrow> real \<Rightarrow> nat \<Rightarrow> proc \<Rightarrow> nat \<Rightarrow> proc option" where
  "pass_state os r bits t s 0 = Some s"
| "pass_state os r bits t s (Suc k) =
     (case range_body os r bits t s of
        (Fail e, s1) \<Rightarrow> None
      | (Found c, s1) \<Rightarrow> None
      | (Retry, s1) \<Rightarrow> pass_state os r bits t s1 k)"

definition winrandom_range :: "env \<Rightarrow> int \<Rightarrow> proc \<Rightarrow> ((error + int) \<times> proc) option" where
  "winrandom_range os rand_max s =
     (case PyArg_l rand_max of
        None \<Rightarrow> Some (Inl ParseError, s)
      | Some r \<Rightarrow>
          if r \<le> 1 then Some (Inl InvalidRange, s)
          else (case acquire os s of
                  (False, s1) \<Rightarrow> Some (Inl SourceUnavailable, s1)
                | (True, s1) \<Rightarrow>
                    (case range_loop os r (upperLimitBits r) (t_bytes r) s1 of
                       None \<Rightarrow> None
                     | Some (Inl e, s2) \<Rightarrow> Some (Inl e, s2)
                     | Some (Inr c, s2) \<Rightarrow>
                         Some (Inr (Py_BuildValue_k c), CryptReleaseContext s2))))"

subsection \<open>winrandom_bytes\<close>

definition winrandom_bytes :: "env \<Rightarrow> int \<Rightarrow> proc \<Rightarrow> (error + byte list) \<times> proc" where
  "winrandom_bytes os n s =
     (case PyArg_I n of
        None \<Rightarrow> (Inl ParseError, s)
      | Some num_bytes \<Rightarrow>
          if \<not> malloc_ok os (unat num_bytes) then (Inl AllocationFailed, s)
          else (case acquire os s of
                  (False, s1) \<Rightarrow> (Inl SourceUnavailable, s1)
                | (True, s1) \<Rightarrow>
                    (case CryptGenRandom os (unat num_bytes) s1 of
                       (None, s2) \<Rightarrow> (Inl GenerationFailed, s2)
                     | (Some buf, s2) \<Rightarrow> (Py_BuildValue_y os buf num_bytes, s2))))"

subsection \<open>winrandom_long\<close>

text \<open>\<^verbatim>\<open>sizeof(pbRandomData)\<close> for \<^verbatim>\<open>unsigned long pbRandomData\<close>.\<close>

definition sizeof_ulong :: nat where
  "sizeof_ulong = 4"

definition winrandom_long :: "env \<Rightarrow> proc \<Rightarrow> (error + int) \<times> proc" where
  "winrandom_long os s =
     (case acquire os s of
        (False, s1) \<Rightarrow> (Inl SourceUnavailable, s1)
      | (True, s1) \<Rightarrow>
          (case CryptGenRandom os sizeof_ulong s1 of
             (None, s2) \<Rightarrow> (Inl GenerationFailed, s2)
           | (Some buf, s2) \<Rightarrow> (Inr (Py_BuildValue_k (store_le buf)), s2)))"

subsection \<open>The bit width the specification describes\<close>

text \<open>
  In the specification's words, \<open>bits_needed\<close> is "the minimum number of bits
  required to represent the largest value below \<open>max\<close>". The number of bits
  required to represent \<open>n\<close> is the number of halvings that take \<open>n\<close> to zero.
\<close>

fun spec_min_bits :: "nat \<Rightarrow> nat" where
  "spec_min_bits n = (if n = 0 then 0 else Suc (spec_min_bits (n div 2)))"

declare spec_min_bits.simps [simp del]

subsection \<open>Mock entropy sources\<close>

text \<open>
  Both providers and \<^verbatim>\<open>malloc\<close> work; call \<open>k\<close> of \<^verbatim>\<open>CryptGenRandom\<close> fills its
  buffer with the byte \<open>bs ! k\<close>, and fails once the script is used up. The
  interpreter reads the length of \<^verbatim>\<open>#\<close> as an \<^verbatim>\<open>int\<close>.
\<close>

definition env_script :: "byte list \<Rightarrow> env" where
  "env_script bs =
     \<lparr>aes_ok = True, full_ok = True, malloc_ok = (\<lambda>n. True),
      gen = (\<lambda>k. if k < length bs then Some (\<lambda>i. bs ! k) else None),
      hash_reads_int = True\<rparr>"

text \<open>Only the fallback provider works; every byte of every call is \<open>b\<close>.\<close>

definition env_const :: "byte \<Rightarrow> env" where
  "env_const b =
     \<lparr>aes_ok = False, full_ok = True, malloc_ok = (\<lambda>n. True),
      gen = (\<lambda>k. Some (\<lambda>i. b)), hash_reads_int = True\<rparr>"

section \<open>Properties\<close>

subsection \<open>Arithmetic of the bit and byte counts\<close>

lemma r_minus_1_pos:
  fixes r :: ulong
  assumes "1 < r"
  shows "0 < unat (r - 1)"
  using assms by (auto simp add: unat_gt_0 word_less_nat_alt)

lemma ceiling_log2_nat:
  assumes "0 < n"
  shows "real_of_int \<lceil>ln (real n) / ln 2\<rceil> = real (ceillog2 n)"
proof -
  have "1 \<le> real n" using assms by simp
  then have "0 \<le> log 2 (real n)" by simp
  then have "0 \<le> \<lceil>log 2 (real n)\<rceil>" by linarith
  then show ?thesis
    using assms by (simp add: ceillog2_def log_def)
qed

lemma upperLimitBits_ceillog2:
  assumes "1 < r"
  shows "upperLimitBits r = real (ceillog2 (unat (r - 1)))"
  using ceiling_log2_nat [OF r_minus_1_pos [OF assms]]
  by (simp add: upperLimitBits_def)

lemma ceiling_div8:
  "\<lceil>real n / 8\<rceil> = int ((n + 7) div 8)"
proof -
  have "\<lceil>real n / 8\<rceil> = \<lceil>real_of_int (int n) / real_of_int 8\<rceil>" by simp
  also have "\<dots> = - ((- int n) div 8)"
    unfolding ceiling_divide_eq_div by simp
  also have "\<dots> = int ((n + 7) div 8)" by (simp add: zdiv_int)
  finally show ?thesis .
qed

lemma t_bytes_ceillog2:
  assumes "1 < r"
  shows "t_bytes r = (ceillog2 (unat (r - 1)) + 7) div 8"
  by (simp add: t_bytes_def upperLimitBits_ceillog2 [OF assms] ceiling_div8)

lemma unat_minus_1:
  fixes r :: ulong
  assumes "1 < r"
  shows "unat (r - 1) = unat r - 1"
  using assms by (cases "r = 0") (auto simp: unat_minus_one)

text \<open>
  At most four bytes are requested, so \<^verbatim>\<open>CryptGenRandom\<close> never writes past the
  four bytes of \<open>c\<close>.
\<close>

lemma t_bytes_le_4:
  assumes "1 < r"
  shows "t_bytes r \<le> 4"
proof -
  have "unat (r - 1) < 2 ^ LENGTH(32)"
    by (rule unsigned_less)
  then have "unat (r - 1) \<le> 2 ^ 32" by simp
  then have "ceillog2 (unat (r - 1)) \<le> 32"
    using r_minus_1_pos [OF assms] by (simp add: ceillog2_le_iff)
  then show ?thesis
    by (simp add: t_bytes_ceillog2 [OF assms])
qed

lemma upperLimitBits_eqI:
  fixes r :: ulong
  assumes "1 < r" and "unat (r - 1) \<le> 2 ^ l" and "2 ^ l < 2 * unat (r - 1)"
  shows "upperLimitBits r = real l"
  using upperLimitBits_ceillog2 [OF assms(1)] ceillog2_eqI [OF assms(2,3)] by simp

lemma bits_200: "upperLimitBits 200 = 8"
  using upperLimitBits_eqI [of 200 8] by simp

lemma t_200: "t_bytes 200 = 1"
  by (simp add: t_bytes_def bits_200)

subsection \<open>Argument parsing\<close>

lemma PyArg_l_pos:
  assumes "PyArg_l x = Some r" and "0 \<le> x"
  shows "uint r = x"
proof -
  from assms have "x < 2 ^ 31" and r: "r = word_of_int x"
    by (auto simp: PyArg_l_def split: if_splits)
  then have "x < 2 ^ LENGTH(32)" by simp
  with assms(2) r show ?thesis
    by (simp add: uint_word_of_int)
qed

subsection \<open>The rejection loop\<close>

lemma range_body_cases:
  assumes "range_body os r bits t s = (out, s')"
  shows "(out = Fail GenerationFailed \<and> gen os (length (fetched s)) = None
            \<and> s' = s\<lparr>fetched := fetched s @ [t]\<rparr>)
       \<or> (\<exists>f. gen os (length (fetched s)) = Some f
            \<and> (let c = store_le (map f [0..<t]) in
               if 15 < bits \<and> c = iContinousRndTest s
               then out = Fail EntropyTestFailed \<and> s' = s\<lparr>fetched := fetched s @ [t]\<rparr>
               else s' = s\<lparr>fetched := fetched s @ [t], iContinousRndTest := c\<rparr>
                    \<and> out = (if c < r then Found c else Retry)))"
  using assms
  by (auto simp: range_body_def CryptGenRandom_def Let_def split: option.splits if_splits)

lemma range_loop_found_less:
  assumes "range_loop os r bits t s = Some y"
  shows "case y of (Inl e, s') \<Rightarrow> True | (Inr c, s') \<Rightarrow> c < r"
  using assms
proof (induction rule: range_loop.raw_induct [rotated 1, consumes 1, case_names step])
  case (step loop os r bits t s y)
  obtain out s1 where b: "range_body os r bits t s = (out, s1)"
    by (cases "range_body os r bits t s")
  show ?case
  proof (cases out)
    case (Fail e)
    with step(2) b show ?thesis by auto
  next
    case (Found c)
    with b have "c < r"
      by (auto simp: range_body_def Let_def split: prod.splits option.splits if_splits)
    with step(2) b Found show ?thesis by auto
  next
    case Retry
    with step(2) b have "loop os r bits t s1 = Some y" by simp
    then show ?thesis by (rule step(1))
  qed
qed


lemma range_body_fetched:
  "fetched (snd (range_body os r bits t s)) = fetched s @ [t]"
  by (auto simp: range_body_def CryptGenRandom_def Let_def split: option.splits)

lemma range_loop_fetched_grows:
  assumes "range_loop os r bits t s = Some y"
  shows "length (fetched s) < length (fetched (snd y))"
  using assms
proof (induction rule: range_loop.raw_induct [rotated 1, consumes 1, case_names step])
  case (step loop os r bits t s y)
  obtain out s1 where b: "range_body os r bits t s = (out, s1)"
    by (cases "range_body os r bits t s")
  have f: "fetched s1 = fetched s @ [t]"
    using range_body_fetched [of os r bits t s] b by simp
  show ?case
  proof (cases out)
    case (Fail e)
    with step(2) b f show ?thesis by auto
  next
    case (Found c)
    with step(2) b f show ?thesis by auto
  next
    case Retry
    with step(2) b have "loop os r bits t s1 = Some y" by simp
    then have "length (fetched s1) < length (fetched (snd y))" by (rule step(1))
    with f show ?thesis by simp
  qed
qed

subsection \<open>Claims about winrandom_range\<close>

lemma range_script_200:
  "winrandom_range (env_script [250, 7]) 200 proc_init =
     Some (Inr 7, \<lparr>iContinousRndTest = 7, acquired = 1, released = 1, fetched = [1, 1]\<rparr>)"
  by (simp add: winrandom_range_def PyArg_l_def acquire_def CryptAcquireContext_def
      proc_init_def env_script_def bits_200 t_200 range_loop.simps range_body_def
      CryptGenRandom_def CryptReleaseContext_def Py_BuildValue_k_def Let_def
      word_le_nat_alt word_less_nat_alt)

text \<open>
  C1: for every \<open>rand_max > 1\<close>, whenever \<open>range(rand_max)\<close> returns successfully, the
  returned integer \<open>c\<close> satisfies \<open>0 \<le> c < rand_max\<close>; the rejection loop never
  returns a value \<open>\<ge> rand_max\<close>.
\<close>

theorem range_result_below_max:
  assumes "1 < rand_max"
    and "winrandom_range os rand_max s = Some (Inr c, s')"
  shows "0 \<le> c \<and> c < rand_max"
proof -
  from assms(2) obtain r where r: "PyArg_l rand_max = Some r"
    by (auto simp: winrandom_range_def split: option.splits)
  with assms(1) have ur: "uint r = rand_max" by (simp add: PyArg_l_pos)
  from assms(2) r obtain s1 w s2 where
    loop: "range_loop os r (upperLimitBits r) (t_bytes r) s1 = Some (Inr w, s2)"
    and c: "c = Py_BuildValue_k w"
    by (auto simp: winrandom_range_def split: option.splits if_splits prod.splits bool.splits sum.splits)
  from range_loop_found_less [OF loop] have "w < r" by simp
  then have "uint w < uint r" by (simp add: word_less_def)
  with ur c show ?thesis by (simp add: Py_BuildValue_k_def)
qed

theorem range_result_below_max_witness:
  "(1::int) < 200 \<and>
   winrandom_range (env_script [250, 7]) 200 proc_init =
     Some (Inr 7, \<lparr>iContinousRndTest = 7, acquired = 1, released = 1, fetched = [1, 1]\<rparr>) \<and>
   (0::int) \<le> 7 \<and> (7::int) < 200"
  using range_result_below_max [OF _ range_script_200] range_script_200 by simp

subsection \<open>The bit and byte counts\<close>

lemma spec_min_bits_le_iff: "spec_min_bits n \<le> k \<longleftrightarrow> n < 2 ^ k"
proof (induction n arbitrary: k rule: spec_min_bits.induct)
  case (1 n)
  show ?case
  proof (cases "n = 0")
    case True
    then show ?thesis by (simp add: spec_min_bits.simps)
  next
    case False
    show ?thesis
    proof (cases k)
      case 0
      with False show ?thesis by (simp add: spec_min_bits.simps [of n])
    next
      case (Suc j)
      have "spec_min_bits n \<le> Suc j \<longleftrightarrow> spec_min_bits (n div 2) \<le> j"
        using False by (simp add: spec_min_bits.simps [of n])
      also have "\<dots> \<longleftrightarrow> n div 2 < 2 ^ j"
        using 1 [OF False] .
      also have "\<dots> \<longleftrightarrow> n < 2 ^ Suc j"
        by (simp add: div_less_iff_less_mult mult.commute)
      finally show ?thesis using Suc by simp
    qed
  qed
qed

lemma spec_min_bits_1: "spec_min_bits (Suc 0) = Suc 0"
  by (simp add: spec_min_bits.simps [of "Suc 0"] spec_min_bits.simps [of 0])

lemma bits_2: "upperLimitBits 2 = 0"
  by (simp add: upperLimitBits_def)

lemma t_2: "t_bytes 2 = 0"
  by (simp add: t_bytes_def bits_2)

lemma bits_100: "upperLimitBits 100 = 7"
  using upperLimitBits_eqI [of 100 7] by simp

lemma t_100: "t_bytes 100 = 1"
  by (simp add: t_bytes_def bits_100)

lemma nat_eq_by_le:
  fixes a b :: nat
  assumes "\<And>k. a \<le> k \<longleftrightarrow> b \<le> k"
  shows "a = b"
  using assms [of a] assms [of b] by simp

lemma ceillog2_min_bits:
  assumes "0 < n"
  shows "ceillog2 n = spec_min_bits (n - 1)"
proof (rule nat_eq_by_le)
  fix k
  have "ceillog2 n \<le> k \<longleftrightarrow> n \<le> 2 ^ k"
    using assms by (rule ceillog2_le_iff)
  also have "\<dots> \<longleftrightarrow> n - 1 < 2 ^ k"
    using assms by auto
  also have "\<dots> \<longleftrightarrow> spec_min_bits (n - 1) \<le> k"
    by (simp add: spec_min_bits_le_iff)
  finally show "ceillog2 n \<le> k \<longleftrightarrow> spec_min_bits (n - 1) \<le> k" .
qed

lemma spec_min_bits_power2: "spec_min_bits (2 ^ k) = Suc k"
proof (rule nat_eq_by_le)
  fix j
  have "spec_min_bits (2 ^ k) \<le> j \<longleftrightarrow> (2::nat) ^ k < 2 ^ j"
    by (rule spec_min_bits_le_iff)
  also have "\<dots> \<longleftrightarrow> Suc k \<le> j"
    by (simp add: Suc_le_eq)
  finally show "spec_min_bits (2 ^ k) \<le> j \<longleftrightarrow> Suc k \<le> j" .
qed

lemma upperLimitBits_exact_off_power2:
  assumes "1 < r" and "\<And>k. unat (r - 1) \<noteq> 2 ^ k"
  shows "upperLimitBits r = real (spec_min_bits (unat (r - 1)))"
proof -
  let ?n = "unat (r - 1)"
  have pos: "0 < ?n" using assms(1) by (rule r_minus_1_pos)
  have "spec_min_bits (?n - 1) = spec_min_bits ?n"
  proof (rule nat_eq_by_le)
    fix k
    have "spec_min_bits (?n - 1) \<le> k \<longleftrightarrow> ?n - 1 < 2 ^ k"
      by (rule spec_min_bits_le_iff)
    also have "\<dots> \<longleftrightarrow> ?n \<le> 2 ^ k"
      using pos by auto
    also have "\<dots> \<longleftrightarrow> ?n < 2 ^ k"
      using assms(2) [of k] by auto
    also have "\<dots> \<longleftrightarrow> spec_min_bits ?n \<le> k"
      by (simp add: spec_min_bits_le_iff)
    finally show "spec_min_bits (?n - 1) \<le> k \<longleftrightarrow> spec_min_bits ?n \<le> k" .
  qed
  then show ?thesis
    using ceillog2_min_bits [OF pos]
    by (simp add: upperLimitBits_ceillog2 [OF assms(1)])
qed

text \<open>
  C4: for every \<open>max > 1\<close>, the bit width computed by the range sampler,
  \<open>ceil(log2(max - 1))\<close>, equals the minimum number of bits required to represent
  \<open>max - 1\<close>. The code misses it at \<open>max = 2\<close>: it computes 0 bits where one bit
  is required to represent 1.
\<close>

theorem bits_needed_short_at_2:
  "upperLimitBits 2 = 0 \<and> spec_min_bits (unat ((2::ulong) - 1)) = 1"
  by (simp add: bits_2 spec_min_bits_1)

text \<open>
  C5, as stated: for every \<open>max > 1\<close> the number of bytes fetched satisfies
  \<open>2 ^ (8 * bytes_needed) < 2 * max\<close>. It fails at \<open>max = 100\<close>: one byte is fetched,
  and 256 candidates are not fewer than 200.
\<close>

theorem sample_space_counterexample:
  "\<not> 2 ^ (8 * t_bytes 100) < 2 * unat (100 :: ulong)"
  by (simp add: t_100)

text \<open>
  C5, amended: for every \<open>max > 1\<close> the number of bytes fetched satisfies
  \<open>2 ^ (8 * bytes_needed) < 256 * max\<close>; the bound \<open>2 * max\<close> holds when the bit
  width is a whole number of bytes (\<open>bits_needed = 8 * bytes_needed\<close>).
\<close>

theorem sample_space_bound:
  assumes "1 < r"
  shows "2 ^ (8 * t_bytes r) < 256 * unat r \<and>
         (upperLimitBits r = 8 * real (t_bytes r) \<longrightarrow> 2 ^ (8 * t_bytes r) < 2 * unat r)"
proof -
  let ?n = "unat (r - 1)"
  let ?L = "ceillog2 ?n"
  have pos: "0 < ?n" using assms by (rule r_minus_1_pos)
  have n: "?n < unat r" using assms by (simp add: unat_minus_1 word_less_nat_alt)
  have L: "2 ^ ?L < 2 * ?n" using pos by (rule two_power_ceillog2_gt)
  have t: "t_bytes r = (?L + 7) div 8" using assms by (rule t_bytes_ceillog2)
  have "8 * t_bytes r \<le> ?L + 7" unfolding t by simp
  then have "(2::nat) ^ (8 * t_bytes r) \<le> 2 ^ (?L + 7)"
    by (rule power_increasing) simp
  also have "\<dots> = 128 * 2 ^ ?L" by (simp add: power_add)
  also have "\<dots> < 128 * (2 * ?n)" using L by simp
  also have "\<dots> < 256 * unat r" using n by simp
  finally have a: "2 ^ (8 * t_bytes r) < 256 * unat r" .
  have b: "2 ^ (8 * t_bytes r) < 2 * unat r" if "upperLimitBits r = 8 * real (t_bytes r)"
  proof -
    from that have "real ?L = real (8 * t_bytes r)"
      by (simp add: upperLimitBits_ceillog2 [OF assms])
    then have "?L = 8 * t_bytes r" by (simp only: of_nat_eq_iff)
    with L n show ?thesis by simp
  qed
  from a b show ?thesis by blast
qed

theorem sample_space_bound_witness:
  "(1::ulong) < 200 \<and> 2 ^ (8 * t_bytes 200) < 256 * unat (200::ulong) \<and>
   upperLimitBits 200 = 8 * real (t_bytes 200) \<and>
   2 ^ (8 * t_bytes 200) < 2 * unat (200::ulong)"
  using sample_space_bound [of 200] by (simp add: bits_200 t_200)

subsection \<open>The continuous self-test\<close>

lemma bits_100000: "upperLimitBits 100000 = 17"
  using upperLimitBits_eqI [of 100000 17] by simp

lemma t_100000: "t_bytes 100000 = 3"
  by (simp add: t_bytes_def bits_100000)

lemma upperLimitBits_gt_15_iff: "15 < upperLimitBits r \<longleftrightarrow> 16 \<le> upperLimitBits r"
proof -
  have "15 < real_of_int z \<longleftrightarrow> 16 \<le> real_of_int z" for z :: int
  proof -
    have "15 < real_of_int z \<longleftrightarrow> 15 < z" by simp
    moreover have "16 \<le> real_of_int z \<longleftrightarrow> 16 \<le> z" by simp
    ultimately show ?thesis by arith
  qed
  then show ?thesis unfolding upperLimitBits_def .
qed


lemma PyArg_l_100000: "PyArg_l 100000 = Some 100000"
  by (simp add: PyArg_l_def)





lemma pass_state_fetched:
  assumes "pass_state os r bits t s0 k = Some s"
  shows "length (fetched s) = length (fetched s0) + k"
  using assms
proof (induction k arbitrary: s0)
  case 0
  then show ?case by simp
next
  case (Suc k)
  obtain out s1 where b: "range_body os r bits t s0 = (out, s1)"
    by (cases "range_body os r bits t s0")
  with Suc.prems have p: "pass_state os r bits t s1 k = Some s"
    by (auto split: outcome.splits)
  have "fetched s1 = fetched s0 @ [t]"
    using range_body_fetched [of os r bits t s0] b by simp
  with Suc.IH [OF p] show ?case by simp
qed









lemma one_less_100000: "(1::ulong) < 100000"
  by (simp add: word_less_nat_alt)




subsection \<open>The first candidate of a process\<close>

lemma acquire_ok:
  assumes "aes_ok os \<or> full_ok os"
  shows "acquire os s = (True, s\<lparr>acquired := acquired s + 1\<rparr>)"
  using assms by (auto simp: acquire_def CryptAcquireContext_def)

lemma acquire_fail:
  assumes "\<not> aes_ok os" and "\<not> full_ok os"
  shows "acquire os s = (False, s)"
  using assms by (simp add: acquire_def CryptAcquireContext_def)

lemma winrandom_range_acquired:
  assumes "PyArg_l rand_max = Some r" and "1 < r" and "aes_ok os \<or> full_ok os"
  shows "winrandom_range os rand_max s =
     (case range_loop os r (upperLimitBits r) (t_bytes r) (s\<lparr>acquired := acquired s + 1\<rparr>) of
        None \<Rightarrow> None
      | Some (Inl e, s2) \<Rightarrow> Some (Inl e, s2)
      | Some (Inr c, s2) \<Rightarrow> Some (Inr (Py_BuildValue_k c), CryptReleaseContext s2))"
proof -
  from assms(2) have "\<not> r \<le> 1" by simp
  then show ?thesis
    by (simp add: winrandom_range_def assms(1) acquire_ok [OF assms(3)])
qed

lemma range_body_gen:
  assumes "gen os (length (fetched s)) = Some f"
  shows "range_body os r bits t s =
     (let c = store_le (map f [0..<t]) in
      if 15 < bits \<and> c = iContinousRndTest s
      then (Fail EntropyTestFailed, s\<lparr>fetched := fetched s @ [t]\<rparr>)
      else if c < r
        then (Found c, s\<lparr>fetched := fetched s @ [t], iContinousRndTest := c\<rparr>)
        else (Retry, s\<lparr>fetched := fetched s @ [t], iContinousRndTest := c\<rparr>))"
  using assms by (simp add: range_body_def CryptGenRandom_def Let_def)

lemma range_first_trip:
  "winrandom_range (env_const 0) 100000 proc_init =
     Some (Inl EntropyTestFailed,
       \<lparr>iContinousRndTest = 0, acquired = 1, released = 0, fetched = [3]\<rparr>)"
  by (simp add: winrandom_range_def PyArg_l_def acquire_def CryptAcquireContext_def
      proc_init_def env_const_def bits_100000 t_100000 range_loop.simps range_body_def
      CryptGenRandom_def Let_def word_le_nat_alt word_less_nat_alt upt_rec)

lemma env_const_gen_0: "gen (env_const b) 0 = Some (\<lambda>i. b)"
  by (simp add: env_const_def)

lemma env_const_provider: "aes_ok (env_const b) \<or> full_ok (env_const b)"
  by (simp add: env_const_def)


text \<open>
  C7, as stated: the stored value starts as a sentinel meaning "no prior value", so
  the first candidate drawn by \<open>range\<close> in a process can never trip the continuous
  self-test. It fails: the stored value starts as 0, and the first call of a process
  trips the test when its first candidate is 0 at a width of 17 bits.
\<close>

theorem first_candidate_counterexample:
  "winrandom_range (env_const 0) 100000 proc_init =
     Some (Inl EntropyTestFailed,
       \<lparr>iContinousRndTest = 0, acquired = 1, released = 0, fetched = [3]\<rparr>)"
  by (rule range_first_trip)

text \<open>
  C7, amended: the stored value starts as 0, and the first candidate drawn by
  \<open>range\<close> in a process trips the continuous self-test exactly when the bit width is
  at least 16 and that candidate is 0.
\<close>

theorem first_candidate_trip_iff:
  assumes "PyArg_l rand_max = Some r" and "1 < r"
    and "aes_ok os \<or> full_ok os"
    and "gen os 0 = Some f"
  shows "(\<exists>s'. winrandom_range os rand_max proc_init = Some (Inl EntropyTestFailed, s')
              \<and> length (fetched s') = 1)
     \<longleftrightarrow> (16 \<le> upperLimitBits r \<and> store_le (map f [0..<t_bytes r]) = 0)"
proof -
  define s1 where "s1 = proc_init\<lparr>acquired := acquired proc_init + 1\<rparr>"
  define c where "c = store_le (map f [0..<t_bytes r])"
  define bits where "bits = upperLimitBits r"
  define t where "t = t_bytes r"
  have f1: "fetched s1 = []" and i1: "iContinousRndTest s1 = 0"
    by (simp_all add: s1_def proc_init_def)
  have g: "gen os (length (fetched s1)) = Some f"
    using assms(4) by (simp add: f1)
  have body: "range_body os r bits t s1 =
      (if 15 < bits \<and> c = 0
       then (Fail EntropyTestFailed, s1\<lparr>fetched := [t]\<rparr>)
       else if c < r
         then (Found c, s1\<lparr>fetched := [t], iContinousRndTest := c\<rparr>)
         else (Retry, s1\<lparr>fetched := [t], iContinousRndTest := c\<rparr>))"
    using range_body_gen [OF g, of r bits t] by (simp add: Let_def c_def t_def f1 i1)
  have call: "winrandom_range os rand_max proc_init =
     (case range_loop os r bits t s1 of
        None \<Rightarrow> None
      | Some (Inl e, s2) \<Rightarrow> Some (Inl e, s2)
      | Some (Inr c, s2) \<Rightarrow> Some (Inr (Py_BuildValue_k c), CryptReleaseContext s2))"
    unfolding s1_def bits_def t_def
    by (rule winrandom_range_acquired [OF assms(1,2,3)])
  have trip: "15 < bits \<and> c = 0 \<longleftrightarrow>
      16 \<le> upperLimitBits r \<and> store_le (map f [0..<t_bytes r]) = 0"
    by (simp add: bits_def c_def upperLimitBits_gt_15_iff)
  show ?thesis
  proof (cases "15 < bits \<and> c = 0")
    case True
    then have "range_loop os r bits t s1 =
        Some (Inl EntropyTestFailed, s1\<lparr>fetched := [t]\<rparr>)"
      by (subst range_loop.simps) (simp add: body)
    then have "winrandom_range os rand_max proc_init =
        Some (Inl EntropyTestFailed, s1\<lparr>fetched := [t]\<rparr>)"
      by (simp add: call)
    moreover have "length (fetched (s1\<lparr>fetched := [t]\<rparr>)) = 1"
      by simp
    ultimately have "\<exists>s'. winrandom_range os rand_max proc_init = Some (Inl EntropyTestFailed, s')
              \<and> length (fetched s') = 1" by blast
    with True trip show ?thesis by blast
  next
    case False
    have "\<not> (\<exists>s'. winrandom_range os rand_max proc_init = Some (Inl EntropyTestFailed, s')
              \<and> length (fetched s') = 1)"
    proof
      assume "\<exists>s'. winrandom_range os rand_max proc_init = Some (Inl EntropyTestFailed, s')
              \<and> length (fetched s') = 1"
      then obtain s' where w: "winrandom_range os rand_max proc_init = Some (Inl EntropyTestFailed, s')"
        and l: "length (fetched s') = 1" by blast
      from w have loop: "range_loop os r bits t s1 = Some (Inl EntropyTestFailed, s')"
        by (auto simp: call split: option.splits sum.splits prod.splits)
      have body': "range_body os r bits t s1 =
          (if c < r
           then (Found c, s1\<lparr>fetched := [t], iContinousRndTest := c\<rparr>)
           else (Retry, s1\<lparr>fetched := [t], iContinousRndTest := c\<rparr>))"
        unfolding body using False by (rule if_not_P)
      show False
      proof (cases "c < r")
        case True
        then have "range_loop os r bits t s1 =
            Some (Inr c, s1\<lparr>fetched := [t], iContinousRndTest := c\<rparr>)"
          by (subst range_loop.simps) (simp add: body')
        with loop show False by simp
      next
        case notless: False
        define s2 where "s2 = s1\<lparr>fetched := [t], iContinousRndTest := c\<rparr>"
        from notless have "range_loop os r bits t s1 = range_loop os r bits t s2"
          unfolding s2_def by (subst range_loop.simps) (simp add: body')
        with loop have "range_loop os r bits t s2 = Some (Inl EntropyTestFailed, s')"
          by simp
        from range_loop_fetched_grows [OF this] have "1 < length (fetched s')"
          by (simp add: s2_def)
        with l show False by simp
      qed
    qed
    with False trip show ?thesis by blast
  qed
qed

theorem first_candidate_trip_iff_witness:
  "winrandom_range (env_const 0) 100000 proc_init =
     Some (Inl EntropyTestFailed,
       \<lparr>iContinousRndTest = 0, acquired = 1, released = 0, fetched = [3]\<rparr>) \<and>
   16 \<le> upperLimitBits 100000 \<and> store_le (map (\<lambda>i. 0) [0..<t_bytes 100000]) = 0 \<and>
   \<not> (\<exists>s'. winrandom_range (env_const 9) 100000 proc_init = Some (Inl EntropyTestFailed, s')
              \<and> length (fetched s') = 1)"
proof -
  note zero = first_candidate_trip_iff [OF PyArg_l_100000 one_less_100000
      env_const_provider env_const_gen_0, of 0]
  note nine = first_candidate_trip_iff [OF PyArg_l_100000 one_less_100000
      env_const_provider env_const_gen_0, of 9]
  have a: "16 \<le> upperLimitBits 100000 \<and> store_le (map (\<lambda>i. 0) [0..<t_bytes 100000]) = 0"
    using zero range_first_trip by simp
  have "store_le (map (\<lambda>i. 9) [0..<t_bytes 100000]) \<noteq> 0"
    by (simp add: t_100000 upt_rec)
  with nine have b: "\<not> (\<exists>s'. winrandom_range (env_const 9) 100000 proc_init =
       Some (Inl EntropyTestFailed, s') \<and> length (fetched s') = 1)"
    by simp
  from a b range_first_trip show ?thesis by blast
qed

subsection \<open>The smallest accepted argument\<close>

lemma PyArg_l_2: "PyArg_l 2 = Some 2"
  by (simp add: PyArg_l_def)

lemma one_less_2: "(1::ulong) < 2"
  by (simp add: word_less_nat_alt)

lemma env_script_provider: "aes_ok (env_script bs) \<or> full_ok (env_script bs)"
  by (simp add: env_script_def)

lemma env_script_gen_0: "gen (env_script [250, 7]) (length (fetched proc_init)) = Some (\<lambda>i. 250)"
  by (simp add: env_script_def proc_init_def)

lemma env_const_gen_init: "gen (env_const b) (length (fetched proc_init)) = Some (\<lambda>i. b)"
  by (simp add: env_const_def)

text \<open>
  C10: \<open>range(2)\<close> computes a bit width of 0 and a byte count of 0, fetches zero
  random bytes and returns 0 in the first pass of the loop, whatever the entropy
  source would have produced: any two runs return the same value 0.
\<close>

theorem range_2_constant:
  assumes "aes_ok os \<or> full_ok os"
    and "gen os (length (fetched s)) = Some f"
  shows "upperLimitBits 2 = 0 \<and> t_bytes 2 = 0 \<and>
     winrandom_range os 2 s =
       Some (Inr 0, s\<lparr>acquired := acquired s + 1, fetched := fetched s @ [0],
                       iContinousRndTest := 0, released := released s + 1\<rparr>)"
proof -
  define s1 where "s1 = s\<lparr>acquired := acquired s + 1\<rparr>"
  have g: "gen os (length (fetched s1)) = Some f"
    using assms(2) by (simp add: s1_def)
  have "range_body os 2 0 0 s1 =
      (Found 0, s1\<lparr>fetched := fetched s1 @ [0], iContinousRndTest := 0\<rparr>)"
    using range_body_gen [OF g, of 2 0 0] by (simp add: word_less_nat_alt)
  then have "range_loop os 2 0 0 s1 =
      Some (Inr 0, s1\<lparr>fetched := fetched s1 @ [0], iContinousRndTest := 0\<rparr>)"
    by (subst range_loop.simps) simp
  then have "winrandom_range os 2 s =
      Some (Inr (Py_BuildValue_k 0),
        CryptReleaseContext (s1\<lparr>fetched := fetched s1 @ [0], iContinousRndTest := 0\<rparr>))"
    using winrandom_range_acquired [OF PyArg_l_2 one_less_2 assms(1), of s]
    by (simp add: bits_2 t_2 s1_def)
  then show ?thesis
    by (simp add: bits_2 t_2 s1_def Py_BuildValue_k_def CryptReleaseContext_def)
qed

theorem range_2_constant_witness:
  "fst (the (winrandom_range (env_script [250, 7]) 2 proc_init)) = Inr 0 \<and>
   fst (the (winrandom_range (env_const 9) 2 proc_init)) = Inr 0 \<and>
   fetched (snd (the (winrandom_range (env_const 9) 2 proc_init))) = [0]"
  using range_2_constant [OF env_script_provider env_script_gen_0]
    range_2_constant [OF env_const_provider env_const_gen_init, of 9]
  by (simp add: proc_init_def)

subsection \<open>Arguments at and below 1\<close>

lemma range_rejects_0_1:
  assumes "rand_max = 0 \<or> rand_max = 1"
  shows "winrandom_range os rand_max s = Some (Inl InvalidRange, s)"
  using assms by (auto simp: winrandom_range_def PyArg_l_def)

lemma range_rejects_unparsed:
  assumes "rand_max < - (2 ^ 31)"
  shows "winrandom_range os rand_max s = Some (Inl ParseError, s)"
  using assms by (simp add: winrandom_range_def PyArg_l_def)

lemma bits_minus_5: "upperLimitBits 4294967291 = 32"
  using upperLimitBits_eqI [of 4294967291 32] by (simp add: word_less_nat_alt)

lemma t_minus_5: "t_bytes 4294967291 = 4"
  by (simp add: t_bytes_def bits_minus_5)

lemma PyArg_l_minus_5: "PyArg_l (- 5) = Some 4294967291"
  by (simp add: PyArg_l_def)

lemma one_less_minus_5: "(1::ulong) < 4294967291"
  by (simp add: word_less_nat_alt)

lemma env_const_gen: "gen (env_const b) k = Some (\<lambda>i. b)"
  by (simp add: env_const_def)

text \<open>
  C3: for every argument \<open>max \<le> 1\<close>, negative values included, \<open>range(max)\<close> fails
  with an invalid-argument error and returns no random value. The code misses the
  negative arguments its comment on \<open>r\<close> means to catch: \<open>range(-5)\<close> passes the check
  \<open>r \<le> 1\<close> as \<open>4294967291\<close> and returns a random value.
\<close>

theorem range_accepts_minus_5:
  "winrandom_range (env_const 7) (- 5) proc_init =
     Some (Inr 117901063,
       \<lparr>iContinousRndTest = 117901063, acquired = 1, released = 1, fetched = [4]\<rparr>)"
proof -
  define s1 where "s1 = proc_init\<lparr>acquired := acquired proc_init + 1\<rparr>"
  have g: "gen (env_const 7) (length (fetched s1)) = Some (\<lambda>i. 7)"
    by (rule env_const_gen)
  have "range_body (env_const 7) 4294967291 32 4 s1 =
      (Found 117901063, s1\<lparr>fetched := fetched s1 @ [4], iContinousRndTest := 117901063\<rparr>)"
    using range_body_gen [OF g, of 4294967291 32 4]
    by (simp add: s1_def proc_init_def upt_rec word_less_nat_alt)
  then have "range_loop (env_const 7) 4294967291 32 4 s1 =
      Some (Inr 117901063, s1\<lparr>fetched := fetched s1 @ [4], iContinousRndTest := 117901063\<rparr>)"
    by (subst range_loop.simps) simp
  then show ?thesis
    using winrandom_range_acquired [OF PyArg_l_minus_5 one_less_minus_5 env_const_provider,
        of 7 proc_init]
    by (simp add: bits_minus_5 t_minus_5 s1_def proc_init_def Py_BuildValue_k_def
        CryptReleaseContext_def)
qed

subsection \<open>Provider handles\<close>

lemma long_never_releases: "released (snd (winrandom_long os s)) = released s"
  by (auto simp: winrandom_long_def acquire_def CryptAcquireContext_def CryptGenRandom_def
      split: option.splits)

lemma bytes_never_releases: "released (snd (winrandom_bytes os n s)) = released s"
  by (auto simp: winrandom_bytes_def PyArg_I_def acquire_def CryptAcquireContext_def
      CryptGenRandom_def split: option.splits)

lemma long_acquires:
  assumes "aes_ok os \<or> full_ok os"
  shows "acquired (snd (winrandom_long os s)) = acquired s + 1"
  using assms
  by (auto simp: winrandom_long_def acquire_def CryptAcquireContext_def CryptGenRandom_def
      split: option.splits)

lemma range_body_handles:
  "released (snd (range_body os r bits t s)) = released s \<and>
   acquired (snd (range_body os r bits t s)) = acquired s"
  by (auto simp: range_body_def CryptGenRandom_def Let_def split: option.splits)

lemma range_loop_handles:
  assumes "range_loop os r bits t s = Some y"
  shows "released (snd y) = released s \<and> acquired (snd y) = acquired s"
  using assms
proof (induction rule: range_loop.raw_induct [rotated 1, consumes 1, case_names step])
  case (step loop os r bits t s y)
  obtain out s1 where b: "range_body os r bits t s = (out, s1)"
    by (cases "range_body os r bits t s")
  have h: "released s1 = released s \<and> acquired s1 = acquired s"
    using range_body_handles [of os r bits t s] b by simp
  show ?case
  proof (cases out)
    case (Fail e)
    with step(2) b h show ?thesis by auto
  next
    case (Found c)
    with step(2) b h show ?thesis by auto
  next
    case Retry
    with step(2) b have "loop os r bits t s1 = Some y" by simp
    then have "released (snd y) = released s1 \<and> acquired (snd y) = acquired s1"
      by (rule step(1))
    with h show ?thesis by simp
  qed
qed

lemma range_releases_on_success:
  assumes "winrandom_range os rand_max s = Some (Inr c, s')"
  shows "acquired s' = acquired s + 1 \<and> released s' = released s + 1"
proof -
  from assms obtain r s1 w s2 where
    a: "acquire os s = (True, s1)"
    and loop: "range_loop os r (upperLimitBits r) (t_bytes r) s1 = Some (Inr w, s2)"
    and s': "s' = CryptReleaseContext s2"
    by (auto simp: winrandom_range_def split: option.splits if_splits prod.splits bool.splits sum.splits)
  from a have "acquired s1 = acquired s + 1 \<and> released s1 = released s"
    by (auto simp: acquire_def CryptAcquireContext_def split: if_splits)
  with range_loop_handles [OF loop] s' show ?thesis
    by (simp add: CryptReleaseContext_def)
qed

lemma range_leaks_on_failure_in_loop:
  assumes "winrandom_range os rand_max s = Some (Inl e, s')"
    and "e = GenerationFailed \<or> e = EntropyTestFailed"
  shows "acquired s' = acquired s + 1 \<and> released s' = released s"
proof -
  from assms obtain r s1 where
    a: "acquire os s = (True, s1)"
    and loop: "range_loop os r (upperLimitBits r) (t_bytes r) s1 = Some (Inl e, s')"
    by (auto simp: winrandom_range_def split: option.splits if_splits prod.splits bool.splits sum.splits)
  from a have "acquired s1 = acquired s + 1 \<and> released s1 = released s"
    by (auto simp: acquire_def CryptAcquireContext_def split: if_splits)
  with range_loop_handles [OF loop] show ?thesis by simp
qed

lemma bytes_acquires:
  assumes "fst (winrandom_bytes os n s) = Inr bs"
  shows "acquired (snd (winrandom_bytes os n s)) = acquired s + 1"
  using assms
  by (auto simp: winrandom_bytes_def PyArg_I_def acquire_def CryptAcquireContext_def
      CryptGenRandom_def split: option.splits if_splits)

text \<open>
  C2: every call of \<open>long()\<close>, \<open>bytes(n)\<close> or \<open>range(max)\<close> that acquires a handle
  releases exactly one handle before it returns, on every exit path. The code
  releases on the successful return of \<open>range\<close> only: a successful \<open>long()\<close> returns
  with one handle acquired and none released.
\<close>

theorem long_leaks_handle:
  "winrandom_long (env_const 7) proc_init =
     (Inr 117901063, \<lparr>iContinousRndTest = 0, acquired = 1, released = 0, fetched = [4]\<rparr>)"
  by (simp add: winrandom_long_def acquire_def CryptAcquireContext_def proc_init_def
      env_const_def CryptGenRandom_def sizeof_ulong_def Py_BuildValue_k_def upt_rec)

subsection \<open>winrandom_long\<close>

lemma store_le_horner: "store_le bs = word_of_int (horner_sum uint 256 bs)"
proof (induction bs)
  case Nil
  show ?case by simp
next
  case (Cons b bs)
  have "(ucast b :: ulong) = word_of_int (uint b)"
    by simp
  then show ?case
    by (simp add: Cons push_bit_eq_mult)
qed

lemma bytes_of_int:
  fixes x :: int
  assumes "0 \<le> x" and "x < 2 ^ 32"
  shows "x mod 256 + 256 * (x div 256 mod 256 + 256 * (x div 65536 mod 256 +
           256 * (x div 16777216 mod 256))) = x"
proof -
  define a where "a = x div 256"
  define b where "b = a div 256"
  define c where "c = b div 256"
  define xm where "xm = x mod 256"
  define am where "am = a mod 256"
  define bm where "bm = b mod 256"
  have xa: "x = xm + 256 * a" by (simp add: a_def xm_def)
  have ab: "a = am + 256 * b" by (simp add: b_def am_def)
  have bc: "b = bm + 256 * c" by (simp add: c_def bm_def)
  have b': "x div 65536 = b"
    by (simp add: a_def b_def zdiv_zmult2_eq)
  have c': "x div 16777216 = c"
    by (simp add: a_def b_def c_def zdiv_zmult2_eq)
  have "0 \<le> c" using assms(1) by (simp add: a_def b_def c_def)
  moreover have "c < 256" using assms(2) unfolding c' [symmetric] by simp
  ultimately have cm: "c mod 256 = c" by simp
  have "xm + 256 * (am + 256 * (bm + 256 * c)) = x"
    using xa ab bc by simp
  then show ?thesis
    unfolding b' c' cm unfolding xm_def am_def bm_def a_def .
qed

lemma store_le_onto: "\<exists>g. store_le (map g [0..<4]) = (v :: ulong)"
proof -
  define x where "x = uint v"
  define b0 :: byte where "b0 = word_of_int x"
  define b1 :: byte where "b1 = word_of_int (x div 256)"
  define b2 :: byte where "b2 = word_of_int (x div 65536)"
  define b3 :: byte where "b3 = word_of_int (x div 16777216)"
  define g :: "nat \<Rightarrow> byte" where "g = (\<lambda>i. [b0, b1, b2, b3] ! i)"
  have x: "0 \<le> x" "x < 2 ^ 32"
    using uint_lt2p [of v] by (simp_all add: x_def)
  have u0: "uint b0 = x mod 256" by (simp add: b0_def uint_word_of_int)
  have u1: "uint b1 = x div 256 mod 256" by (simp add: b1_def uint_word_of_int)
  have u2: "uint b2 = x div 65536 mod 256" by (simp add: b2_def uint_word_of_int)
  have u3: "uint b3 = x div 16777216 mod 256" by (simp add: b3_def uint_word_of_int)
  have m: "map g [0..<4] = [b0, b1, b2, b3]"
    by (simp add: g_def upt_rec)
  have "horner_sum uint 256 [b0, b1, b2, b3] =
      uint b0 + 256 * (uint b1 + 256 * (uint b2 + 256 * uint b3))"
    by simp
  also have "\<dots> = x"
    unfolding u0 u1 u2 u3 using x by (rule bytes_of_int)
  finally have "store_le (map g [0..<4]) = word_of_int x"
    by (simp only: store_le_horner m)
  then have "store_le (map g [0..<4]) = v"
    by (simp add: x_def)
  then show ?thesis by blast
qed

text \<open>
  C9: \<open>long()\<close> takes no range argument, fetches exactly
  \<^verbatim>\<open>sizeof(unsigned long)\<close> random bytes, and on success returns them read as an
  unsigned integer of the full native width; no value of that width is excluded.
\<close>

theorem long_full_width:
  assumes "aes_ok os \<or> full_ok os"
    and "gen os (length (fetched s)) = Some f"
  shows "fst (winrandom_long os s) = Inr (uint (store_le (map f [0..<sizeof_ulong]))) \<and>
         fetched (snd (winrandom_long os s)) = fetched s @ [sizeof_ulong] \<and>
         sizeof_ulong = 4 \<and>
         (\<forall>v::ulong. \<exists>g. fst (winrandom_long (os\<lparr>gen := (\<lambda>k. Some g)\<rparr>) s) = Inr (uint v))"
proof -
  have run: "winrandom_long os' s =
      (Inr (uint (store_le (map g [0..<sizeof_ulong]))),
       s\<lparr>acquired := acquired s + 1, fetched := fetched s @ [sizeof_ulong]\<rparr>)"
    if "aes_ok os' \<or> full_ok os'" and "gen os' (length (fetched s)) = Some g" for os' g
    using that
    by (simp add: winrandom_long_def acquire_ok CryptGenRandom_def Py_BuildValue_k_def)
  have "\<exists>g. fst (winrandom_long (os\<lparr>gen := (\<lambda>k. Some g)\<rparr>) s) = Inr (uint v)" for v :: ulong
  proof -
    obtain g where g: "store_le (map g [0..<4]) = v"
      using store_le_onto by blast
    have "fst (winrandom_long (os\<lparr>gen := (\<lambda>k. Some g)\<rparr>) s) =
        Inr (uint (store_le (map g [0..<sizeof_ulong])))"
      using run [of "os\<lparr>gen := (\<lambda>k. Some g)\<rparr>" g] assms(1) by simp
    with g show ?thesis by (auto simp: sizeof_ulong_def)
  qed
  with run [OF assms] show ?thesis
    by (simp add: sizeof_ulong_def)
qed

theorem long_full_width_witness:
  "fst (winrandom_long (env_const 7) proc_init) = Inr 117901063 \<and>
   fetched (snd (winrandom_long (env_const 7) proc_init)) = [4] \<and>
   (\<exists>g. fst (winrandom_long (env_const 7\<lparr>gen := (\<lambda>k. Some g)\<rparr>) proc_init) = Inr 4294967295)"
proof -
  note w = long_full_width [OF env_const_provider env_const_gen, of 7 proc_init]
  from w have a: "fst (winrandom_long (env_const 7) proc_init) = Inr 117901063"
    by (simp add: sizeof_ulong_def upt_rec)
  from w have b: "fetched (snd (winrandom_long (env_const 7) proc_init)) = [4]"
    by (simp add: proc_init_def)
  from w have "\<exists>g. fst (winrandom_long (env_const 7\<lparr>gen := (\<lambda>k. Some g)\<rparr>) proc_init) =
      Inr (uint (4294967295 :: ulong))"
    by blast
  then have c: "\<exists>g. fst (winrandom_long (env_const 7\<lparr>gen := (\<lambda>k. Some g)\<rparr>) proc_init) =
      Inr 4294967295"
    by simp
  from a b c show ?thesis by blast
qed

subsection \<open>winrandom_bytes\<close>











end
